theory Spec2Isabelle
  imports Main "HOL-Library.Sublist"
begin

section \<open>Package retry: repeating operations in tests\<close>

text \<open>
  The development follows \<^verbatim>\<open>testutil/retry/retry.go\<close>. The recorder \<^verbatim>\<open>R\<close>, the two
  retry policies \<^verbatim>\<open>Counter\<close> and \<^verbatim>\<open>Timer\<close>, the function \<^verbatim>\<open>dedup\<close> and the loop
  \<^verbatim>\<open>run\<close> are translated function by function. What the package takes from its
  environment is made explicit: the clock and \<^verbatim>\<open>time.Sleep\<close>, the host test handle
  \<^verbatim>\<open>*testing.T\<close>, the caller information of \<^verbatim>\<open>runtime.Caller\<close>, the formatting
  functions of package \<^verbatim>\<open>fmt\<close>, and \<^verbatim>\<open>runtime.Goexit\<close>.
\<close>

subsection \<open>Results of calls\<close>

text \<open>
  A Go call either returns or ends the goroutine it runs on (\<^verbatim>\<open>runtime.Goexit\<close>,
  which is how \<^verbatim>\<open>R.FailNow\<close> and \<^verbatim>\<open>testing.T.FailNow\<close> stop their caller).
\<close>

datatype 'a res = Return 'a | Goexit

subsection \<open>Operands and the formatting library\<close>

text \<open>
  The operands of the variadic \<^verbatim>\<open>...interface{}\<close> parameters: integers, strings and
  slices of operands (\<^verbatim>\<open>[]interface{}\<close>).
\<close>

datatype gval = GInt int | GStr string | GSlice "gval list"

text \<open>
  Package \<^verbatim>\<open>fmt\<close> is not part of the repository; the recorder takes its two
  functions as a parameter, so that what is proved of the recorder holds for every
  behaviour of \<^verbatim>\<open>fmt.Sprint\<close> and \<^verbatim>\<open>fmt.Sprintf\<close>.
\<close>

record fmtlib =
  Sprint :: "gval list \<Rightarrow> string"
  Sprintf :: "string \<Rightarrow> gval list \<Rightarrow> string"

subsection \<open>A fragment of package fmt\<close>

text \<open>
  For concrete messages, the documented behaviour of \<^verbatim>\<open>fmt\<close> on the plain verbs
  \<^verbatim>\<open>%v\<close>, \<^verbatim>\<open>%d\<close>, \<^verbatim>\<open>%s\<close> and on \<^verbatim>\<open>%%\<close>, for the operands above: a slice is
  printed as its elements between brackets, separated by spaces, the verb applied to
  each; a verb that does not fit its operand prints \<^verbatim>\<open>%!verb(type=value)\<close>; a verb
  without operand prints \<^verbatim>\<open>%!verb(MISSING)\<close>; operands left over are listed after
  \<^verbatim>\<open>%!(EXTRA\<close>. Flags, width, precision and the other verbs are outside the
  fragment.
\<close>

definition digit_char :: "nat \<Rightarrow> char" where
  "digit_char n = ''0123456789'' ! (n mod 10)"

function show_nat :: "nat \<Rightarrow> string" where
  "show_nat n = (if n < 10 then [digit_char n] else show_nat (n div 10) @ [digit_char n])"
  by pat_completeness auto
termination
  by (relation "measure id") auto

definition Itoa :: "int \<Rightarrow> string" where
  "Itoa i = (if i < 0 then CHR ''-'' # show_nat (nat (- i)) else show_nat (nat i))"

fun join_with :: "string \<Rightarrow> string list \<Rightarrow> string" where
  "join_with sep [] = []"
| "join_with sep [x] = x"
| "join_with sep (x # y # ys) = x @ sep @ join_with sep (y # ys)"

fun type_name :: "gval \<Rightarrow> string" where
  "type_name (GInt i) = ''int''"
| "type_name (GStr s) = ''string''"
| "type_name (GSlice xs) = ''[]interface {}''"

fun printValue :: "char \<Rightarrow> gval \<Rightarrow> string" where
  "printValue c (GInt i) =
     (if c = CHR ''d'' \<or> c = CHR ''v'' then Itoa i
      else ''%!'' @ [c] @ ''(int='' @ Itoa i @ '')'')"
| "printValue c (GStr s) =
     (if c = CHR ''s'' \<or> c = CHR ''v'' then s
      else ''%!'' @ [c] @ ''(string='' @ s @ '')'')"
| "printValue c (GSlice xs) = ''['' @ join_with '' '' (map (printValue c) xs) @ '']''"

definition extra :: "gval list \<Rightarrow> string" where
  "extra args =
     (if args = [] then []
      else ''%!(EXTRA ''
        @ join_with '', '' (map (\<lambda>a. type_name a @ ''='' @ printValue (CHR ''v'') a) args)
        @ '')'')"

fun doPrintf :: "string \<Rightarrow> gval list \<Rightarrow> string" where
  "doPrintf [] args = extra args"
| "doPrintf [c] args = (if c = CHR ''%'' then ''%!(NOVERB)'' @ extra args else c # extra args)"
| "doPrintf (c # v # cs) args =
     (if c \<noteq> CHR ''%'' then c # doPrintf (v # cs) args
      else if v = CHR ''%'' then CHR ''%'' # doPrintf cs args
      else (case args of
              [] \<Rightarrow> ''%!'' @ [v] @ ''(MISSING)'' @ doPrintf cs []
            | a # as \<Rightarrow> printValue v a @ doPrintf cs as))"

fun is_GStr :: "gval \<Rightarrow> bool" where
  "is_GStr (GStr s) = True"
| "is_GStr v = False"

fun doPrint :: "bool \<Rightarrow> bool \<Rightarrow> gval list \<Rightarrow> string" where
  "doPrint first prevString [] = []"
| "doPrint first prevString (a # as) =
     (if \<not> first \<and> \<not> is_GStr a \<and> \<not> prevString then '' '' else [])
       @ printValue (CHR ''v'') a @ doPrint False (is_GStr a) as"

definition gofmt :: fmtlib where
  "gofmt = \<lparr>Sprint = doPrint True False, Sprintf = doPrintf\<rparr>"

subsection \<open>The recorder R\<close>

record R =
  fail :: bool
  "output" :: "string list"

text \<open>
  \<^verbatim>\<open>runtime.Caller(3)\<close> is the call site in the attempt's code: its file and line,
  or nothing when the information cannot be recovered. It is a parameter of every
  logging call.
\<close>

type_synonym caller = "(string \<times> int) option"

text \<open>\<^verbatim>\<open>strings.LastIndex\<close>: the index of the last instance of the substring, or -1.\<close>

definition LastIndex :: "string \<Rightarrow> string \<Rightarrow> int" where
  "LastIndex s substr =
     (case filter (\<lambda>i. prefix substr (drop i s)) (rev [0..<Suc (length s)]) of
        [] \<Rightarrow> - 1
      | i # _ \<Rightarrow> int i)"

definition decorate :: "fmtlib \<Rightarrow> caller \<Rightarrow> string \<Rightarrow> string" where
  "decorate L c s =
     (case c of
        Some (file, line) \<Rightarrow>
          (let n = LastIndex file ''/'';
               file' = (if n \<ge> 0 then drop (nat (n + 1)) file else file)
           in Sprintf L ''%s:%d: %s'' [GStr file', GInt line, GStr s])
      | None \<Rightarrow> Sprintf L ''%s:%d: %s'' [GStr ''???'', GInt 1, GStr s])"

definition R_log :: "fmtlib \<Rightarrow> caller \<Rightarrow> string \<Rightarrow> R \<Rightarrow> R" where
  "R_log L c s r = r\<lparr>output := output r @ [decorate L c s]\<rparr>"

definition R_FailNow :: "R \<Rightarrow> unit res \<times> R" where
  "R_FailNow r = (Goexit, r\<lparr>fail := True\<rparr>)"

definition R_Fatal :: "fmtlib \<Rightarrow> caller \<Rightarrow> gval list \<Rightarrow> R \<Rightarrow> unit res \<times> R" where
  "R_Fatal L c args r = R_FailNow (R_log L c (Sprint L args) r)"

text \<open>
  \<^verbatim>\<open>Fatalf\<close> hands the slice \<^verbatim>\<open>args\<close> to \<^verbatim>\<open>fmt.Sprintf\<close> as one operand
  (the source has \<^verbatim>\<open>fmt.Sprintf(format, args)\<close>, without \<^verbatim>\<open>...\<close>).
\<close>

definition R_Fatalf :: "fmtlib \<Rightarrow> caller \<Rightarrow> string \<Rightarrow> gval list \<Rightarrow> R \<Rightarrow> unit res \<times> R" where
  "R_Fatalf L c format args r = R_FailNow (R_log L c (Sprintf L format [GSlice args]) r)"

definition R_Error :: "fmtlib \<Rightarrow> caller \<Rightarrow> gval list \<Rightarrow> R \<Rightarrow> unit res \<times> R" where
  "R_Error L c args r = (Return (), (R_log L c (Sprint L args) r)\<lparr>fail := True\<rparr>)"

subsection \<open>dedup\<close>

text \<open>
  The first loop counts the lines in a \<^verbatim>\<open>map[string]int\<close> (a missing key reads as
  0); the second writes a line and a newline when its key is still in the map, and
  deletes the key.
\<close>

fun dedup_count :: "(string \<rightharpoonup> int) \<Rightarrow> string list \<Rightarrow> (string \<rightharpoonup> int)" where
  "dedup_count m [] = m"
| "dedup_count m (s # a) =
     dedup_count (m(s \<mapsto> (case m s of None \<Rightarrow> 0 | Some n \<Rightarrow> n) + 1)) a"

fun dedup_write :: "(string \<rightharpoonup> int) \<Rightarrow> string \<Rightarrow> string list \<Rightarrow> string" where
  "dedup_write m b [] = b"
| "dedup_write m b (s # a) =
     (case m s of
        Some _ \<Rightarrow> dedup_write (m(s := None)) (b @ s @ [CHR 0x0A]) a
      | None \<Rightarrow> dedup_write m b a)"

definition dedup :: "string list \<Rightarrow> string" where
  "dedup a = (if length a = 0 then [] else dedup_write (dedup_count Map.empty a) [] a)"

text \<open>
  The specification's wording of \<^verbatim>\<open>dedup\<close>: each distinct line once, in the order
  of its first occurrence, each terminated by a line break.
\<close>

function first_occurrences :: "'a list \<Rightarrow> 'a list" where
  "first_occurrences [] = []"
| "first_occurrences (x # xs) = x # first_occurrences (removeAll x xs)"
  by pat_completeness auto
termination
  by (relation "measure length") (auto simp: length_removeAll_less_eq less_Suc_eq_le)

definition dedup_spec :: "string list \<Rightarrow> string" where
  "dedup_spec a = concat (map (\<lambda>s. s @ [CHR 0x0A]) (first_occurrences a))"

subsection \<open>The world outside the package\<close>

text \<open>
  The clock (in nanoseconds since the zero time of \<^verbatim>\<open>time.Time\<close>, so that
  \<^verbatim>\<open>IsZero\<close> is equality with 0) and the trace of what has been done to the
  environment: a sleep, an invocation of the attempt callback (with its number), and
  the two calls on the host's test handle.
\<close>

datatype event = Slept int | Invoked nat | TLog string | TFailNow

record world =
  now :: int
  trace :: "event list"

text \<open>\<^verbatim>\<open>time.Sleep(d)\<close> returns at once for \<^verbatim>\<open>d <= 0\<close> and otherwise after \<^verbatim>\<open>d\<close>.\<close>

definition Sleep :: "int \<Rightarrow> world \<Rightarrow> world" where
  "Sleep d w = w\<lparr>now := now w + max 0 d, trace := trace w @ [Slept d]\<rparr>"

definition t_Log :: "string \<Rightarrow> world \<Rightarrow> world" where
  "t_Log s w = w\<lparr>trace := trace w @ [TLog s]\<rparr>"

text \<open>\<^verbatim>\<open>testing.T.FailNow\<close> marks the test as failed and stops its goroutine.\<close>

definition t_FailNow :: "world \<Rightarrow> unit res \<times> world" where
  "t_FailNow w = (Goexit, w\<lparr>trace := trace w @ [TFailNow]\<rparr>)"

fun is_host :: "event \<Rightarrow> bool" where
  "is_host (TLog s) = True"
| "is_host TFailNow = True"
| "is_host e = False"

definition host_events :: "world \<Rightarrow> event list" where
  "host_events w = filter is_host (trace w)"

fun is_Slept :: "event \<Rightarrow> bool" where
  "is_Slept (Slept d) = True"
| "is_Slept e = False"

fun is_Invoked :: "event \<Rightarrow> bool" where
  "is_Invoked (Invoked n) = True"
| "is_Invoked e = False"

subsection \<open>Attempts\<close>

text \<open>
  The attempt callback \<^verbatim>\<open>f func(r *R)\<close> is a closure of the caller. From outside the
  package it reaches the recorder only through the exported methods, so one
  invocation is the sequence of method calls it makes, with the time it spends
  elsewhere (\<open>Work\<close>), and the callback is the function from the number of earlier
  invocations to that sequence. That number is the closure's own state: \<^verbatim>\<open>run\<close>
  threads it through the loop, starting at 0.
\<close>

datatype rcall =
    Error caller "gval list"
  | Fatal caller "gval list"
  | Fatalf caller string "gval list"
  | FailNow
  | Work int

type_synonym attempt = "nat \<Rightarrow> rcall list"

fun call :: "fmtlib \<Rightarrow> rcall \<Rightarrow> R \<Rightarrow> world \<Rightarrow> unit res \<times> R \<times> world" where
  "call L (Error c args) r w = (case R_Error L c args r of (x, r') \<Rightarrow> (x, r', w))"
| "call L (Fatal c args) r w = (case R_Fatal L c args r of (x, r') \<Rightarrow> (x, r', w))"
| "call L (Fatalf c format args) r w = (case R_Fatalf L c format args r of (x, r') \<Rightarrow> (x, r', w))"
| "call L FailNow r w = (case R_FailNow r of (x, r') \<Rightarrow> (x, r', w))"
| "call L (Work d) r w = (Return (), r, w\<lparr>now := now w + max 0 d\<rparr>)"

text \<open>A call that ends the goroutine leaves the rest of the callback unexecuted.\<close>

fun exec :: "fmtlib \<Rightarrow> rcall list \<Rightarrow> R \<Rightarrow> world \<Rightarrow> unit res \<times> R \<times> world" where
  "exec L [] r w = (Return (), r, w)"
| "exec L (c # cs) r w =
     (case call L c r w of
        (Return _, r', w') \<Rightarrow> exec L cs r' w'
      | (Goexit, r', w') \<Rightarrow> (Goexit, r', w'))"

text \<open>
  The goroutine started for one attempt: \<^verbatim>\<open>defer wg.Done(); f(rr)\<close>. Its result says
  how the goroutine ended; the deferred \<^verbatim>\<open>wg.Done\<close> runs either way.
\<close>

definition worker :: "fmtlib \<Rightarrow> attempt \<Rightarrow> R \<Rightarrow> nat \<Rightarrow> world \<Rightarrow> unit res \<times> R \<times> world" where
  "worker L f rr n w = exec L (f n) rr (w\<lparr>trace := trace w @ [Invoked n]\<rparr>)"

subsection \<open>Retry policies\<close>

text \<open>
  A \<^verbatim>\<open>Retryer\<close> is anything with a method \<^verbatim>\<open>NextOr(fail func()) bool\<close>: a function of
  the callback, the policy's own state and the world. The callback \<^verbatim>\<open>fail\<close> may
  return or end the goroutine.
\<close>

type_synonym 'p NextOr = "(world \<Rightarrow> unit res \<times> world) \<Rightarrow> 'p \<Rightarrow> world \<Rightarrow> bool res \<times> 'p \<times> world"

text \<open>
  \<^verbatim>\<open>Counter\<close>. The field \<^verbatim>\<open>count\<close> is a Go \<^verbatim>\<open>int\<close>; it starts at 0 and is only
  incremented while it differs from \<^verbatim>\<open>Count\<close>, so for \<^verbatim>\<open>Count >= 0\<close> it stays in
  the range from 0 to \<^verbatim>\<open>Count\<close> and never wraps.
\<close>

record Counter =
  Count :: int
  Counter_Wait :: int
  count :: int

definition Counter_NextOr :: "Counter NextOr" where
  "Counter_NextOr fl r w =
     (if count r = Count r then
        (case fl w of
           (Return _, w') \<Rightarrow> (Return False, r, w')
         | (Goexit, w') \<Rightarrow> (Goexit, r, w'))
      else
        (let w' = (if count r > 0 then Sleep (Counter_Wait r) w else w)
         in (Return True, r\<lparr>count := count r + 1\<rparr>, w')))"

text \<open>
  \<^verbatim>\<open>Timer\<close>. Durations are in nanoseconds; \<^verbatim>\<open>stop\<close> is a \<^verbatim>\<open>time.Time\<close>, whose zero
  value is the instant 0.
\<close>

record Timer =
  Timeout :: int
  Timer_Wait :: int
  stop :: int

definition Timer_NextOr :: "Timer NextOr" where
  "Timer_NextOr fl r w =
     (if stop r = 0 then (Return True, r\<lparr>stop := now w + Timeout r\<rparr>, w)
      else if now w > stop r then
        (case fl w of
           (Return _, w') \<Rightarrow> (Return False, r, w')
         | (Goexit, w') \<Rightarrow> (Goexit, r, w'))
      else (Return True, r, Sleep (Timer_Wait r) w))"

definition Second :: int where
  "Second = 1000000000"

definition Millisecond :: int where
  "Millisecond = 1000000"

definition OneSec :: Timer where
  "OneSec = \<lparr>Timeout = Second, Timer_Wait = 25 * Millisecond, stop = 0\<rparr>"

definition ThreeTimes :: Counter where
  "ThreeTimes = \<lparr>Count = 3, Counter_Wait = 25 * Millisecond, count = 0\<rparr>"

subsection \<open>run\<close>

text \<open>
  The closure \<^verbatim>\<open>fail\<close> of \<^verbatim>\<open>run\<close> reads the recorder when it is called.
\<close>

definition run_fail :: "R \<Rightarrow> world \<Rightarrow> unit res \<times> world" where
  "run_fail rr w =
     (let out = dedup (output rr)
      in t_FailNow (if out \<noteq> [] then t_Log out w else w))"

text \<open>
  The loop of \<^verbatim>\<open>run\<close>. \<^verbatim>\<open>NextOr\<close> ending the goroutine ends \<^verbatim>\<open>run\<close> with it; the
  attempt runs on a goroutine of its own and \<^verbatim>\<open>wg.Wait\<close> returns when that one has
  ended, however it ended. The result holds the final state of the policy and of the
  recorder, the number of invocations of the callback and the final world; a loop
  that never ends has no result.
\<close>

partial_function (option) run_loop ::
  "'p NextOr \<Rightarrow> fmtlib \<Rightarrow> attempt \<Rightarrow> 'p \<Rightarrow> R \<Rightarrow> nat \<Rightarrow> world
     \<Rightarrow> (unit res \<times> 'p \<times> R \<times> nat \<times> world) option" where
  "run_loop nx L f r rr n w =
     (case nx (run_fail rr) r w of
        (Goexit, r', w') \<Rightarrow> Some (Goexit, r', rr, n, w')
      | (Return ok, r', w') \<Rightarrow>
          if ok then
            (case worker L f rr n w' of
               (_, rr', w'') \<Rightarrow>
                 if fail rr' then run_loop nx L f r' (rr'\<lparr>fail := False\<rparr>) (Suc n) w''
                 else Some (Return (), r', rr', Suc n, w''))
          else Some (Return (), r', rr, n, w'))"

declare run_loop.simps [code]

definition run ::
  "'p NextOr \<Rightarrow> fmtlib \<Rightarrow> attempt \<Rightarrow> 'p \<Rightarrow> world \<Rightarrow> (unit res \<times> 'p \<times> R \<times> nat \<times> world) option" where
  "run nx L f r w = run_loop nx L f r \<lparr>fail = False, output = []\<rparr> 0 w"

definition RunWith ::
  "'p NextOr \<Rightarrow> fmtlib \<Rightarrow> attempt \<Rightarrow> 'p \<Rightarrow> world \<Rightarrow> (unit res \<times> 'p \<times> R \<times> nat \<times> world) option" where
  "RunWith nx L f r w = run nx L f r w"

definition Run ::
  "fmtlib \<Rightarrow> attempt \<Rightarrow> world \<Rightarrow> (unit res \<times> Timer \<times> R \<times> nat \<times> world) option" where
  "Run L f w = run Timer_NextOr L f OneSec w"

subsection \<open>What one invocation of the callback does\<close>

text \<open>
  Read off the sequence of calls: whether the invocation ends its goroutine, whether
  it sets the flag \<^verbatim>\<open>fail\<close>, the lines it logs and the time it takes. The calls after
  the first \<^verbatim>\<open>Fatal\<close>, \<^verbatim>\<open>Fatalf\<close> or \<^verbatim>\<open>FailNow\<close> are never made.
\<close>

fun aborts :: "rcall \<Rightarrow> bool" where
  "aborts (Fatal c args) = True"
| "aborts (Fatalf c format args) = True"
| "aborts FailNow = True"
| "aborts (Error c args) = False"
| "aborts (Work d) = False"

fun sets_fail :: "rcall \<Rightarrow> bool" where
  "sets_fail (Work d) = False"
| "sets_fail c = True"

fun call_lines :: "fmtlib \<Rightarrow> rcall \<Rightarrow> string list" where
  "call_lines L (Error c args) = [decorate L c (Sprint L args)]"
| "call_lines L (Fatal c args) = [decorate L c (Sprint L args)]"
| "call_lines L (Fatalf c format args) = [decorate L c (Sprintf L format [GSlice args])]"
| "call_lines L FailNow = []"
| "call_lines L (Work d) = []"

fun call_time :: "rcall \<Rightarrow> int" where
  "call_time (Work d) = max 0 d"
| "call_time c = 0"

definition aborting :: "rcall list \<Rightarrow> bool" where
  "aborting cs = list_ex aborts cs"

definition fails :: "rcall list \<Rightarrow> bool" where
  "fails cs = list_ex sets_fail cs"

fun logged :: "fmtlib \<Rightarrow> rcall list \<Rightarrow> string list" where
  "logged L [] = []"
| "logged L (c # cs) = call_lines L c @ (if aborts c then [] else logged L cs)"

fun elapsed :: "rcall list \<Rightarrow> int" where
  "elapsed [] = 0"
| "elapsed (c # cs) = call_time c + (if aborts c then 0 else elapsed cs)"

subsection \<open>Requests granted\<close>

text \<open>
  The policy grants the first \<open>k\<close> requests of the loop when each of the first \<open>k\<close>
  calls of \<^verbatim>\<open>NextOr\<close> that \<^verbatim>\<open>run\<close> makes returns true, so that the attempts up to the
  \<open>k\<close>-th take place. A policy is handed the closure \<^verbatim>\<open>fail\<close> and nothing else: it
  has neither the host's test handle nor the attempt callback, so a call that
  returns true has reported nothing to the host and has not invoked the callback;
  \<open>invoked\<close> is the record of the invocations in the trace.
\<close>

definition invoked :: "world \<Rightarrow> event list" where
  "invoked w = filter is_Invoked (trace w)"

fun grants :: "'p NextOr \<Rightarrow> fmtlib \<Rightarrow> attempt \<Rightarrow> nat \<Rightarrow> 'p \<Rightarrow> R \<Rightarrow> nat \<Rightarrow> world \<Rightarrow> bool" where
  "grants nx L f 0 r rr n w = True"
| "grants nx L f (Suc k) r rr n w =
     (case nx (run_fail rr) r w of
        (Return ok, r', w') \<Rightarrow>
          ok \<and> host_events w' = host_events w \<and> invoked w' = invoked w \<and>
          (case worker L f rr n w' of
             (_, rr', w'') \<Rightarrow> grants nx L f k r' (rr'\<lparr>fail := False\<rparr>) (Suc n) w'')
      | (Goexit, r', w') \<Rightarrow> False)"

subsection \<open>Traces of a run under a Counter\<close>

text \<open>
  What \<open>m\<close> rounds of the loop leave in the trace when the policy is a \<^verbatim>\<open>Counter\<close>
  with wait \<open>d\<close> whose field \<^verbatim>\<open>count\<close> is \<open>c\<close>, and the callback has been invoked
  \<open>n\<close> times: a sleep unless \<open>c\<close> is 0, then the invocation. \<open>report\<close> is what the
  closure \<^verbatim>\<open>fail\<close> of \<^verbatim>\<open>run\<close> leaves for the logged lines \<open>a\<close>.
\<close>

fun rounds :: "int \<Rightarrow> int \<Rightarrow> nat \<Rightarrow> nat \<Rightarrow> event list" where
  "rounds d c n 0 = []"
| "rounds d c n (Suc m) =
     (if c > 0 then [Slept d] else []) @ [Invoked n] @ rounds d (c + 1) (Suc n) m"

definition report :: "string list \<Rightarrow> event list" where
  "report a = (if a = [] then [] else [TLog (dedup a)]) @ [TFailNow]"

text \<open>The lines that the invocations \<open>n\<close>, ..., \<open>n + m - 1\<close> of the callback log.\<close>

fun logged_from :: "fmtlib \<Rightarrow> attempt \<Rightarrow> nat \<Rightarrow> nat \<Rightarrow> string list" where
  "logged_from L f n 0 = []"
| "logged_from L f n (Suc m) = logged L (f n) @ logged_from L f (Suc n) m"

subsection \<open>Sequences of calls of NextOr\<close>

text \<open>
  The package comment shows \<^verbatim>\<open>NextOr\<close> as the condition of a \<^verbatim>\<open>for\<close> loop, with any
  function as \<^verbatim>\<open>fail\<close>. \<open>calls\<close> makes \<open>k\<close> calls in a row on one policy, with the
  same callback, and lists how each of them ended; a call that ends the goroutine is
  the last. \<open>gave_up\<close> is a callback that logs and returns,
  \<^verbatim>\<open>func() { t.Log("gave up") }\<close>.
\<close>

fun calls :: "'p NextOr \<Rightarrow> (world \<Rightarrow> unit res \<times> world) \<Rightarrow> nat \<Rightarrow> 'p \<Rightarrow> world \<Rightarrow> bool res list" where
  "calls nx fl 0 r w = []"
| "calls nx fl (Suc k) r w =
     (case nx fl r w of
        (Return b, r', w') \<Rightarrow> Return b # calls nx fl k r' w'
      | (Goexit, r', w') \<Rightarrow> [Goexit])"

definition gave_up :: "world \<Rightarrow> unit res \<times> world" where
  "gave_up w = (Return (), t_Log ''gave up'' w)"

subsection \<open>Example callbacks\<close>

text \<open>
  The callbacks of the specification's scenarios: one that fails with
  \<^verbatim>\<open>Error("retry me")\<close> on its first invocation and succeeds from the second on,
  one that calls \<^verbatim>\<open>Error("x")\<close> every time, and one whose first invocation is cut
  short by \<^verbatim>\<open>Fatal("boom")\<close>.
\<close>

definition retry_me :: attempt where
  "retry_me i = (if i = 0 then [Error None [GStr ''retry me'']] else [])"

definition always_x :: attempt where
  "always_x i = [Error None [GStr ''x'']]"


section \<open>Properties\<close>

subsection \<open>dedup\<close>

lemma dom_dedup_count: "dom (dedup_count m a) = dom m \<union> set a"
  by (induction a arbitrary: m) auto

lemma removeAll_filter_mem:
  "removeAll s (filter (\<lambda>x. x \<in> D) a) = filter (\<lambda>x. x \<in> D \<and> x \<noteq> s) a"
  by (induction a) auto

lemma dedup_write_eq:
  "dedup_write m b a =
     b @ concat (map (\<lambda>s. s @ [CHR 0x0A]) (first_occurrences (filter (\<lambda>s. s \<in> dom m) a)))"
proof (induction a arbitrary: m b)
  case Nil
  show ?case by simp
next
  case (Cons s a)
  show ?case
  proof (cases "m s")
    case None
    then have "s \<notin> dom m" by auto
    with None Cons show ?thesis by simp
  next
    case (Some n)
    then have "s \<in> dom m" by auto
    have d: "dom (m(s := None)) = dom m - {s}" by simp
    have "dedup_write m b (s # a) = dedup_write (m(s := None)) (b @ s @ [CHR 0x0A]) a"
      using Some by simp
    also have "\<dots> = (b @ s @ [CHR 0x0A]) @ concat (map (\<lambda>s. s @ [CHR 0x0A])
        (first_occurrences (filter (\<lambda>x. x \<in> dom (m(s := None))) a)))"
      by (rule Cons)
    also have "filter (\<lambda>x. x \<in> dom (m(s := None))) a
        = removeAll s (filter (\<lambda>x. x \<in> dom m) a)"
      unfolding d by (simp add: removeAll_filter_mem)
    finally show ?thesis
      using \<open>s \<in> dom m\<close> by simp
  qed
qed

lemma set_first_occurrences: "set (first_occurrences xs) = set xs"
  by (induction xs rule: first_occurrences.induct) auto

lemma distinct_first_occurrences: "distinct (first_occurrences xs)"
  by (induction xs rule: first_occurrences.induct) (auto simp: set_first_occurrences)

text \<open>
  The list of first occurrences is the library's \<open>remdups\<close>, which keeps last
  occurrences, taken from the end.
\<close>

lemma remdups_snoc: "remdups (ys @ [x]) = removeAll x (remdups ys) @ [x]"
  by (induction ys) auto

lemma first_occurrences_removeAll:
  "first_occurrences (removeAll y xs) = removeAll y (first_occurrences xs)"
proof (induction xs rule: first_occurrences.induct)
  case 1
  show ?case by simp
next
  case (2 x xs)
  show ?case
  proof (cases "x = y")
    case True
    have "y \<notin> set (first_occurrences (removeAll y xs))"
      by (simp add: set_first_occurrences)
    then show ?thesis using True by simp
  next
    case False
    have "removeAll x (removeAll y xs) = removeAll y (removeAll x xs)"
      by (simp add: removeAll_filter_not_eq conj_commute)
    then show ?thesis using False 2 by simp
  qed
qed

lemma first_occurrences_remdups: "first_occurrences xs = rev (remdups (rev xs))"
proof (induction xs)
  case Nil
  show ?case by simp
next
  case (Cons x xs)
  have "rev (remdups (rev (x # xs))) = x # removeAll x (rev (remdups (rev xs)))"
    by (simp add: remdups_snoc removeAll_filter_not_eq rev_filter)
  then show ?case
    by (simp add: first_occurrences_removeAll Cons)
qed

lemma dedup_refines: "dedup a = dedup_spec a"
proof (cases a)
  case Nil
  then show ?thesis by (simp add: dedup_def dedup_spec_def)
next
  case (Cons s a')
  have "filter (\<lambda>x. x \<in> dom (dedup_count Map.empty a)) a = a"
    by (simp add: dom_dedup_count)
  then show ?thesis
    using Cons by (simp add: dedup_def dedup_spec_def dedup_write_eq del: dedup_count.simps)
qed

lemma dedup_empty_iff: "dedup a = [] \<longleftrightarrow> a = []"
proof (cases a)
  case Nil
  then show ?thesis by (simp add: dedup_def)
next
  case (Cons s a')
  then show ?thesis by (simp add: dedup_refines dedup_spec_def)
qed

text \<open>
  C2. For every list of lines, \<^verbatim>\<open>dedup\<close> returns the distinct lines, each once and
  in the order of its first occurrence, each followed by a newline: the result of the
  source's two loops over the map is the specification's \<open>dedup_spec\<close>, whose list
  of lines has no duplicates, holds exactly the lines of the input, and keeps of each
  line the first occurrence.
\<close>

theorem dedup_first_occurrences:
  "dedup a = concat (map (\<lambda>s. s @ [CHR 0x0A]) (first_occurrences a))
   \<and> dedup a = dedup_spec a
   \<and> distinct (first_occurrences a)
   \<and> set (first_occurrences a) = set a
   \<and> first_occurrences a = rev (remdups (rev a))"
  using dedup_refines [of a] first_occurrences_remdups [of a]
  by (simp add: dedup_spec_def distinct_first_occurrences set_first_occurrences)

text \<open>
  The two instances the specification names: the empty list gives the empty string,
  and \<^verbatim>\<open>["a","b","a","c","b"]\<close> gives \<^verbatim>\<open>"a\nb\nc\n"\<close>.
\<close>

theorem dedup_first_occurrences_witness:
  "dedup [] = []
   \<and> dedup [''a'', ''b'', ''a'', ''c'', ''b'']
       = ''a'' @ [CHR 0x0A] @ ''b'' @ [CHR 0x0A] @ ''c'' @ [CHR 0x0A]
   \<and> first_occurrences [''a'', ''b'', ''a'', ''c'', ''b''] = [''a'', ''b'', ''c'']"
  using dedup_first_occurrences [of "[]"]
    dedup_first_occurrences [of "[''a'', ''b'', ''a'', ''c'', ''b'']"]
  by simp

subsection \<open>The recorder and one attempt\<close>

lemma call_eq:
  "call L c r w =
     (if aborts c then Goexit else Return (),
      r\<lparr>fail := fail r \<or> sets_fail c, output := output r @ call_lines L c\<rparr>,
      w\<lparr>now := now w + call_time c\<rparr>)"
  by (cases c) (simp_all add: R_Error_def R_Fatal_def R_Fatalf_def R_FailNow_def R_log_def)

lemma aborts_sets_fail: "aborts c \<Longrightarrow> sets_fail c"
  by (cases c) simp_all

lemma exec_eq:
  "exec L cs r w =
     (if aborting cs then Goexit else Return (),
      r\<lparr>fail := fail r \<or> fails cs, output := output r @ logged L cs\<rparr>,
      w\<lparr>now := now w + elapsed cs\<rparr>)"
proof (induction cs arbitrary: r w)
  case Nil
  show ?case by (simp add: aborting_def fails_def)
next
  case (Cons c cs)
  show ?case
    by (cases "aborts c")
      (simp_all add: call_eq Cons aborting_def fails_def add.assoc aborts_sets_fail)
qed


lemma worker_eq:
  "worker L f rr n w =
     (if aborting (f n) then Goexit else Return (),
      rr\<lparr>fail := fail rr \<or> fails (f n), output := output rr @ logged L (f n)\<rparr>,
      w\<lparr>now := now w + elapsed (f n), trace := trace w @ [Invoked n]\<rparr>)"
  by (simp add: worker_def exec_eq)

lemma run_fail_eq:
  "run_fail rr w = (Goexit, w\<lparr>trace := trace w @ report (output rr)\<rparr>)"
  by (simp add: run_fail_def Let_def t_FailNow_def t_Log_def dedup_empty_iff report_def)

subsection \<open>One round of the loop\<close>

lemma run_loop_granted:
  assumes "nx (run_fail rr) r w = (Return True, r', w')"
  shows "run_loop nx L f r rr n w =
     (if fail rr \<or> fails (f n) then
        run_loop nx L f r' (rr\<lparr>output := output rr @ logged L (f n), fail := False\<rparr>) (Suc n)
          (w'\<lparr>now := now w' + elapsed (f n), trace := trace w' @ [Invoked n]\<rparr>)
      else
        Some (Return (), r', rr\<lparr>output := output rr @ logged L (f n)\<rparr>, Suc n,
          w'\<lparr>now := now w' + elapsed (f n), trace := trace w' @ [Invoked n]\<rparr>))"
  by (subst run_loop.simps) (simp add: assms worker_eq)

lemma run_loop_refused:
  assumes "nx (run_fail rr) r w = (Return False, r', w')"
  shows "run_loop nx L f r rr n w = Some (Return (), r', rr, n, w')"
  by (subst run_loop.simps) (simp add: assms)

lemma run_loop_exit:
  assumes "nx (run_fail rr) r w = (Goexit, r', w')"
  shows "run_loop nx L f r rr n w = Some (Goexit, r', rr, n, w')"
  by (subst run_loop.simps) (simp add: assms)

lemma host_events_Invoked [simp]:
  "host_events (w\<lparr>now := t, trace := trace w @ [Invoked n]\<rparr>) = host_events w"
  by (simp add: host_events_def)

subsection \<open>The first successful attempt ends the run\<close>

lemma invoked_Invoked [simp]:
  "invoked (w\<lparr>now := t, trace := trace w @ [Invoked n]\<rparr>) = invoked w @ [Invoked n]"
  by (simp add: invoked_def)

lemma run_loop_first_success:
  assumes "grants nx L f (Suc j) r rr n w"
    and "\<not> fail rr"
    and "\<forall>i<j. fails (f (n + i))"
    and "\<not> fails (f (n + j))"
  shows "\<exists>r' rr' w'. run_loop nx L f r rr n w = Some (Return (), r', rr', n + Suc j, w')
           \<and> host_events w' = host_events w
           \<and> invoked w' = invoked w @ map Invoked [n..<n + Suc j]
           \<and> output rr' = output rr @ logged_from L f n (Suc j)
           \<and> \<not> fail rr'"
  using assms
proof (induction j arbitrary: r rr n w)
  case 0
  from "0.prems"(1) obtain r' w' where
    g: "nx (run_fail rr) r w = (Return True, r', w')" and h: "host_events w' = host_events w"
    and i: "invoked w' = invoked w"
    by (auto split: prod.splits res.splits)
  show ?case
    using "0.prems"(2,4) h i by (simp add: run_loop_granted [of nx rr r w r' w', OF g])
next
  case (Suc j)
  let ?rr1 = "rr\<lparr>output := output rr @ logged L (f n), fail := False\<rparr>"
  from Suc.prems(1) obtain r' w' where
    g: "nx (run_fail rr) r w = (Return True, r', w')" and h: "host_events w' = host_events w"
    and i: "invoked w' = invoked w"
    and rest: "grants nx L f (Suc j) r' ?rr1
       (Suc n) (w'\<lparr>now := now w' + elapsed (f n), trace := trace w' @ [Invoked n]\<rparr>)"
    by (auto simp: worker_eq split: prod.splits res.splits)
  let ?w2 = "w'\<lparr>now := now w' + elapsed (f n), trace := trace w' @ [Invoked n]\<rparr>"
  have f0: "fails (f n)" using Suc.prems(3) by force
  have a: "\<forall>i<j. fails (f (Suc n + i))" using Suc.prems(3) by force
  have b: "\<not> fails (f (Suc n + j))" using Suc.prems(4) by simp
  have step: "run_loop nx L f r rr n w = run_loop nx L f r' ?rr1 (Suc n) ?w2"
    using f0 by (simp add: run_loop_granted [of nx rr r w r' w', OF g])
  from Suc.IH [OF rest _ a b] obtain r'' rr' w'' where
    res: "run_loop nx L f r' ?rr1 (Suc n) ?w2 = Some (Return (), r'', rr', Suc n + Suc j, w'')"
    and h2: "host_events w'' = host_events ?w2"
    and i2: "invoked w'' = invoked ?w2 @ map Invoked [Suc n..<Suc n + Suc j]"
    and o2: "output rr' = output ?rr1 @ logged_from L f (Suc n) (Suc j)"
    and nf: "\<not> fail rr'"
    by auto
  have upt: "[n..<n + Suc (Suc j)] = n # [Suc n..<Suc n + Suc j]"
    by (simp add: upt_conv_Cons)
  have "run_loop nx L f r rr n w = Some (Return (), r'', rr', n + Suc (Suc j), w'')"
    using res step by simp
  moreover have "host_events w'' = host_events w" using h2 h by simp
  moreover have "invoked w'' = invoked w @ map Invoked [n..<n + Suc (Suc j)]"
    using i2 i unfolding upt by simp
  moreover have "output rr' = output rr @ logged_from L f n (Suc (Suc j))"
    using o2 by simp
  ultimately show ?case using nf by blast
qed

text \<open>
  C1. For every retry policy (every \<^verbatim>\<open>NextOr\<close> and every state of it) and every attempt
  callback: when attempt \<open>k\<close>, counting from 1, takes place (the policy grants the
  first \<open>k\<close> requests) and is the first attempt that leaves the flag \<^verbatim>\<open>fail\<close> unset
  (the attempts before it call \<^verbatim>\<open>Error\<close>, \<^verbatim>\<open>Fatal\<close>, \<^verbatim>\<open>Fatalf\<close> or \<^verbatim>\<open>FailNow\<close>, and it
  calls none of them), \<^verbatim>\<open>RunWith\<close> returns normally and has invoked the callback
  exactly \<open>k\<close> times: the invocations recorded in the trace are those that were there
  before, followed by the invocations 0, ..., \<open>k - 1\<close>, one each and in this order;
  the recorder holds exactly the lines of these \<open>k\<close> invocations, with its flag
  unset; and nothing has been reported to the host's test handle.
\<close>

theorem RunWith_first_success:
  assumes "0 < k"
    and "grants nx L f k r \<lparr>fail = False, output = []\<rparr> 0 w"
    and "\<forall>i<k - 1. fails (f i)"
    and "\<not> fails (f (k - 1))"
  shows "\<exists>r' w'. RunWith nx L f r w
             = Some (Return (), r', \<lparr>fail = False, output = logged_from L f 0 k\<rparr>, k, w')
           \<and> invoked w' = invoked w @ map Invoked [0..<k]
           \<and> host_events w' = host_events w"
proof -
  from assms(1) obtain j where k: "k = Suc j" by (cases k) auto
  have "\<exists>r' rr' w'. run_loop nx L f r \<lparr>fail = False, output = []\<rparr> 0 w
            = Some (Return (), r', rr', 0 + Suc j, w')
           \<and> host_events w' = host_events w
           \<and> invoked w' = invoked w @ map Invoked [0..<0 + Suc j]
           \<and> output rr' = output \<lparr>fail = False, output = []\<rparr> @ logged_from L f 0 (Suc j)
           \<and> \<not> fail rr'"
    using assms(2-4) unfolding k by (intro run_loop_first_success) simp_all
  then obtain r' rr' w' where
    res: "run_loop nx L f r \<lparr>fail = False, output = []\<rparr> 0 w = Some (Return (), r', rr', Suc j, w')"
    and h: "host_events w' = host_events w"
    and i: "invoked w' = invoked w @ map Invoked [0..<Suc j]"
    and out: "output rr' = logged_from L f 0 (Suc j)"
    and nf: "\<not> fail rr'"
    by auto
  have "rr' = \<lparr>fail = False, output = logged_from L f 0 (Suc j)\<rparr>"
    using out nf by (cases rr') simp
  with res h i show ?thesis
    unfolding RunWith_def run_def k by blast
qed

text \<open>
  The specification's scenario: the callback fails on its first invocation and
  succeeds on the second, under a \<^verbatim>\<open>Counter\<close> of three attempts. The run makes the
  two invocations, with the sleep of the policy between them, and keeps the line of
  the first.
\<close>

theorem RunWith_first_success_witness:
  "(0::nat) < 2
   \<and> grants Counter_NextOr gofmt retry_me 2 \<lparr>Count = 3, Counter_Wait = 0, count = 0\<rparr>
        \<lparr>fail = False, output = []\<rparr> 0 \<lparr>now = 0, trace = []\<rparr>
   \<and> fails (retry_me 0) \<and> \<not> fails (retry_me 1)
   \<and> RunWith Counter_NextOr gofmt retry_me \<lparr>Count = 3, Counter_Wait = 0, count = 0\<rparr>
          \<lparr>now = 0, trace = []\<rparr>
       = Some (Return (), \<lparr>Count = 3, Counter_Wait = 0, count = 2\<rparr>,
           \<lparr>fail = False, output = [''???:1: retry me'']\<rparr>, 2,
           \<lparr>now = 0, trace = [Invoked 0, Slept 0, Invoked 1]\<rparr>)
   \<and> logged_from gofmt retry_me 0 2 = [''???:1: retry me'']
   \<and> invoked \<lparr>now = 0, trace = [Invoked 0, Slept 0, Invoked 1]\<rparr> = map Invoked [0..<2]
   \<and> host_events \<lparr>now = 0, trace = [Invoked 0, Slept 0, Invoked 1]\<rparr> = []"
proof -
  have g: "grants Counter_NextOr gofmt retry_me 2 \<lparr>Count = 3, Counter_Wait = 0, count = 0\<rparr>
        \<lparr>fail = False, output = []\<rparr> 0 \<lparr>now = 0, trace = []\<rparr>"
    by code_simp
  have f0: "\<forall>i<2 - 1. fails (retry_me i)" by (simp add: retry_me_def fails_def)
  have f1: "\<not> fails (retry_me (2 - 1))" by (simp add: retry_me_def fails_def)
  have r: "RunWith Counter_NextOr gofmt retry_me \<lparr>Count = 3, Counter_Wait = 0, count = 0\<rparr>
          \<lparr>now = 0, trace = []\<rparr>
       = Some (Return (), \<lparr>Count = 3, Counter_Wait = 0, count = 2\<rparr>,
           \<lparr>fail = False, output = [''???:1: retry me'']\<rparr>, 2,
           \<lparr>now = 0, trace = [Invoked 0, Slept 0, Invoked 1]\<rparr>)"
    by code_simp
  have l: "logged_from gofmt retry_me 0 2 = [''???:1: retry me'']"
    by code_simp
  have i: "invoked \<lparr>now = 0, trace = [Invoked 0, Slept 0, Invoked 1]\<rparr> = map Invoked [0..<2]"
    by code_simp
  have h: "host_events \<lparr>now = 0, trace = [Invoked 0, Slept 0, Invoked 1]\<rparr> = []"
    by code_simp
  show ?thesis
    using RunWith_first_success [OF _ g f0 f1] g f0 f1 r l i h by simp
qed

subsection \<open>A Counter whose attempts all fail\<close>

lemma Counter_NextOr_exhausted:
  "count r = Count r \<Longrightarrow>
     Counter_NextOr fl r w =
       (case fl w of (Return x, w') \<Rightarrow> (Return False, r, w') | (Goexit, w') \<Rightarrow> (Goexit, r, w'))"
  by (simp add: Counter_NextOr_def)

lemma Counter_NextOr_granted:
  "count r \<noteq> Count r \<Longrightarrow>
     Counter_NextOr fl r w =
       (Return True, r\<lparr>count := count r + 1\<rparr>,
        if count r > 0 then Sleep (Counter_Wait r) w else w)"
  by (simp add: Counter_NextOr_def Let_def)

lemma run_loop_Counter_all_fail:
  assumes "m = nat (Count r - count r)"
    and "count r \<le> Count r"
    and "\<forall>i<m. fails (f (n + i))"
  shows "\<exists>rr' w'. run_loop Counter_NextOr L f r rr n w
             = Some (Goexit, r\<lparr>count := Count r\<rparr>, rr', n + m, w')
           \<and> output rr' = output rr @ logged_from L f n m
           \<and> trace w' = trace w @ rounds (Counter_Wait r) (count r) n m @ report (output rr')"
  using assms
proof (induction m arbitrary: r rr n w)
  case 0
  then have e: "count r = Count r" by simp
  have "Counter_NextOr (run_fail rr) r w = (Goexit, r, w\<lparr>trace := trace w @ report (output rr)\<rparr>)"
    by (simp add: Counter_NextOr_exhausted [OF e] run_fail_eq)
  from run_loop_exit [of Counter_NextOr rr r w, OF this] e show ?case
    by simp
next
  case (Suc m)
  let ?w1 = "if count r > 0 then Sleep (Counter_Wait r) w else w"
  let ?r1 = "r\<lparr>count := count r + 1\<rparr>"
  let ?rr1 = "rr\<lparr>output := output rr @ logged L (f n), fail := False\<rparr>"
  let ?w2 = "?w1\<lparr>now := now ?w1 + elapsed (f n), trace := trace ?w1 @ [Invoked n]\<rparr>"
  from Suc.prems have ne: "count r \<noteq> Count r" by auto
  have g: "Counter_NextOr (run_fail rr) r w = (Return True, ?r1, ?w1)"
    by (rule Counter_NextOr_granted [OF ne])
  have f0: "fails (f n)" using Suc.prems(3) by force
  have step: "run_loop Counter_NextOr L f r rr n w = run_loop Counter_NextOr L f ?r1 ?rr1 (Suc n) ?w2"
    using f0 by (simp add: run_loop_granted [of Counter_NextOr rr r w ?r1 ?w1, OF g])
  have m: "m = nat (Count ?r1 - count ?r1)" using Suc.prems(1) by simp
  have le: "count ?r1 \<le> Count ?r1" using Suc.prems(1,2) ne by simp
  have a: "\<forall>i<m. fails (f (Suc n + i))" using Suc.prems(3) by force
  from Suc.IH [OF m le a, of ?rr1 ?w2] obtain rr' w' where
    res: "run_loop Counter_NextOr L f ?r1 ?rr1 (Suc n) ?w2
        = Some (Goexit, ?r1\<lparr>count := Count ?r1\<rparr>, rr', Suc n + m, w')"
    and out: "output rr' = output ?rr1 @ logged_from L f (Suc n) m"
    and tr: "trace w' = trace ?w2 @ rounds (Counter_Wait ?r1) (count ?r1) (Suc n) m @ report (output rr')"
    by blast
  show ?case
    using res out tr unfolding step by (simp add: Sleep_def)
qed


lemma Invoked_rounds: "filter is_Invoked (rounds d c n m) = map Invoked [n..<n + m]"
proof (induction m arbitrary: c n)
  case 0
  show ?case by simp
next
  case (Suc m)
  have "[n..<n + Suc m] = n # [Suc n..<Suc n + m]" by (simp add: upt_conv_Cons)
  then show ?case by (simp add: Suc)
qed

lemma Slept_rounds_pos: "0 < c \<Longrightarrow> filter is_Slept (rounds d c n m) = replicate m (Slept d)"
  by (induction m arbitrary: c n) simp_all

lemma Slept_rounds_0: "filter is_Slept (rounds d 0 n m) = replicate (m - 1) (Slept d)"
  by (cases m) (simp_all add: Slept_rounds_pos)

lemma TFailNow_rounds: "filter (\<lambda>e. e = TFailNow) (rounds d c n m) = []"
  by (induction m arbitrary: c n) simp_all

lemma first_rounds_0:
  "filter is_Slept (takeWhile (\<lambda>e. \<not> is_Invoked e) (rounds d 0 n m @ report a)) = []"
  by (cases m) (simp_all add: report_def)

lemma report_filters:
  "filter is_Invoked (report a) = []" "filter is_Slept (report a) = []"
  "filter (\<lambda>e. e = TFailNow) (report a) = [TFailNow]"
  by (simp_all add: report_def)

text \<open>
  C3. Under a \<^verbatim>\<open>Counter\<close> with \<^verbatim>\<open>Count = n\<close> (\<open>n \<ge> 0\<close>) and any wait \<open>d\<close>, when
  every attempt sets the flag \<^verbatim>\<open>fail\<close>: the run ends in the closure \<^verbatim>\<open>fail\<close> (whose
  \<^verbatim>\<open>t.FailNow\<close> stops the goroutine) after exactly \<open>n\<close> invocations of the callback;
  the closure is called exactly once (one \<open>TFailNow\<close>); the sleeps are exactly
  \<open>n - 1\<close> sleeps of \<open>d\<close> (none for \<open>n = 0\<close>), and none comes before the first
  invocation.
\<close>

theorem Counter_all_fail:
  assumes "0 \<le> n"
    and "\<forall>i<nat n. fails (f i)"
  shows "\<exists>r' rr' w' evs.
      RunWith Counter_NextOr L f \<lparr>Count = n, Counter_Wait = d, count = 0\<rparr> w
        = Some (Goexit, r', rr', nat n, w')
      \<and> trace w' = trace w @ evs
      \<and> evs = rounds d 0 0 (nat n) @ report (output rr')
      \<and> filter is_Invoked evs = map Invoked [0..<nat n]
      \<and> filter is_Slept evs = replicate (nat n - 1) (Slept d)
      \<and> filter is_Slept (takeWhile (\<lambda>e. \<not> is_Invoked e) evs) = []
      \<and> filter (\<lambda>e. e = TFailNow) evs = [TFailNow]"
proof -
  let ?r = "\<lparr>Count = n, Counter_Wait = d, count = 0\<rparr>"
  let ?rr = "\<lparr>fail = False, output = []\<rparr>"
  have m: "nat n = nat (Count ?r - count ?r)" by simp
  have le: "count ?r \<le> Count ?r" using assms(1) by simp
  have a: "\<forall>i<nat n. fails (f (0 + i))" using assms(2) by simp
  from run_loop_Counter_all_fail [OF m le a, of L ?rr w] obtain rr' w' where
    res: "run_loop Counter_NextOr L f ?r ?rr 0 w = Some (Goexit, ?r\<lparr>count := Count ?r\<rparr>, rr', 0 + nat n, w')"
    and tr: "trace w' = trace w @ rounds (Counter_Wait ?r) (count ?r) 0 (nat n) @ report (output rr')"
    by blast
  let ?evs = "rounds d 0 0 (nat n) @ report (output rr')"
  have "RunWith Counter_NextOr L f ?r w = Some (Goexit, ?r\<lparr>count := Count ?r\<rparr>, rr', nat n, w')"
    using res by (simp add: RunWith_def run_def)
  moreover have "trace w' = trace w @ ?evs" using tr by simp
  moreover have "filter is_Invoked ?evs = map Invoked [0..<nat n]"
    by (simp add: Invoked_rounds report_filters)
  moreover have "filter is_Slept ?evs = replicate (nat n - 1) (Slept d)"
    by (simp add: Slept_rounds_0 report_filters)
  moreover have "filter is_Slept (takeWhile (\<lambda>e. \<not> is_Invoked e) ?evs) = []"
    by (rule first_rounds_0)
  moreover have "filter (\<lambda>e. e = TFailNow) ?evs = [TFailNow]"
    by (simp add: TFailNow_rounds report_filters)
  ultimately show ?thesis by blast
qed

text \<open>
  The specification's scenario: every attempt calls \<^verbatim>\<open>Error("x")\<close> under a
  \<^verbatim>\<open>Counter\<close> of three attempts without wait. Three attempts run and the report
  holds the line once.
\<close>

theorem Counter_all_fail_witness:
  "(0::int) \<le> 3 \<and> fails (always_x 0) \<and> fails (always_x 1) \<and> fails (always_x 2)
   \<and> RunWith Counter_NextOr gofmt always_x \<lparr>Count = 3, Counter_Wait = 0, count = 0\<rparr>
        \<lparr>now = 0, trace = []\<rparr>
      = Some (Goexit, \<lparr>Count = 3, Counter_Wait = 0, count = 3\<rparr>,
          \<lparr>fail = False, output = [''???:1: x'', ''???:1: x'', ''???:1: x'']\<rparr>, 3,
          \<lparr>now = 0, trace = [Invoked 0, Slept 0, Invoked 1, Slept 0, Invoked 2,
             TLog (''???:1: x'' @ [CHR 0x0A]), TFailNow]\<rparr>)"
proof -
  have a: "\<forall>i<nat 3. fails (always_x i)" by (simp add: always_x_def fails_def)
  have r: "RunWith Counter_NextOr gofmt always_x \<lparr>Count = 3, Counter_Wait = 0, count = 0\<rparr>
        \<lparr>now = 0, trace = []\<rparr>
      = Some (Goexit, \<lparr>Count = 3, Counter_Wait = 0, count = 3\<rparr>,
          \<lparr>fail = False, output = [''???:1: x'', ''???:1: x'', ''???:1: x'']\<rparr>, 3,
          \<lparr>now = 0, trace = [Invoked 0, Slept 0, Invoked 1, Slept 0, Invoked 2,
             TLog (''???:1: x'' @ [CHR 0x0A]), TFailNow]\<rparr>)"
    by code_simp
  show ?thesis
    using Counter_all_fail [of 3 always_x gofmt 0 "\<lparr>now = 0, trace = []\<rparr>", OF _ a] a r
    by (simp add: always_x_def fails_def)
qed

subsection \<open>The lines of the recorder\<close>

lemma run_loop_output:
  assumes "run_loop nx L f r rr n w = Some y"
  shows "case y of (res, r', rr', n', w') \<Rightarrow>
           n \<le> n' \<and> output rr' = output rr @ logged_from L f n (n' - n)"
proof (rule run_loop.raw_induct
    [where P = "\<lambda>nx L f r rr n w y. case y of (res, r', rr', n', w') \<Rightarrow>
           n \<le> n' \<and> output rr' = output rr @ logged_from L f n (n' - n)", OF _ assms])
  fix loop :: "'a NextOr \<Rightarrow> fmtlib \<Rightarrow> attempt \<Rightarrow> 'a \<Rightarrow> R \<Rightarrow> nat \<Rightarrow> world
     \<Rightarrow> (unit res \<times> 'a \<times> R \<times> nat \<times> world) option"
    and nx L f r rr n w y
  assume 1: "\<And>nx L f r rr n w y. loop nx L f r rr n w = Some y \<Longrightarrow>
      (case y of (res, r', rr', n', w') \<Rightarrow>
           n \<le> n' \<and> output rr' = output rr @ logged_from L f n (n' - n))"
    "(case nx (run_fail rr) r w of
        (Goexit, r', w') \<Rightarrow> Some (Goexit, r', rr, n, w')
      | (Return ok, r', w') \<Rightarrow>
          if ok then
            (case worker L f rr n w' of
               (_, rr', w'') \<Rightarrow>
                 if fail rr' then loop nx L f r' (rr'\<lparr>fail := False\<rparr>) (Suc n) w''
                 else Some (Return (), r', rr', Suc n, w''))
          else Some (Return (), r', rr, n, w')) = Some y"
  obtain x r' w' where nx: "nx (run_fail rr) r w = (x, r', w')"
    by (cases "nx (run_fail rr) r w") auto
  show "case y of (res, r', rr', n', w') \<Rightarrow>
           n \<le> n' \<and> output rr' = output rr @ logged_from L f n (n' - n)"
  proof (cases x)
    case Goexit
    with 1(2) nx show ?thesis by auto
  next
    case (Return ok)
    show ?thesis
    proof (cases ok)
      case False
      with 1(2) nx Return show ?thesis by auto
    next
      case True
      let ?rr1 = "rr\<lparr>fail := fail rr \<or> fails (f n), output := output rr @ logged L (f n)\<rparr>"
      let ?w1 = "w'\<lparr>now := now w' + elapsed (f n), trace := trace w' @ [Invoked n]\<rparr>"
      show ?thesis
      proof (cases "fail ?rr1")
        case False
        with 1(2) nx Return True show ?thesis
          by (auto simp: worker_eq)
      next
        case f: True
        with 1(2) nx Return True
        have rec: "loop nx L f r' (?rr1\<lparr>fail := False\<rparr>) (Suc n) ?w1 = Some y"
          by (auto simp: worker_eq)
        obtain res r'' rr' n' w'' where y: "y = (res, r'', rr', n', w'')"
          by (cases y) auto
        from 1(1) [OF rec] y have le: "Suc n \<le> n'"
          and out: "output rr' = output rr @ logged L (f n) @ logged_from L f (Suc n) (n' - Suc n)"
          by auto
        from le have "n' - n = Suc (n' - Suc n)" by simp
        with le out y show ?thesis by simp
      qed
    qed
  qed
qed


text \<open>
  C8. The lines of the recorder are only ever appended to. \<^verbatim>\<open>log\<close>, \<^verbatim>\<open>Error\<close>, \<^verbatim>\<open>Fatal\<close>
  and \<^verbatim>\<open>Fatalf\<close> add one line at the end, \<^verbatim>\<open>FailNow\<close> and the reset of the flag
  after an attempt leave the lines as they are, every call, every invocation of the
  callback and every worker keeps the earlier lines as a prefix, and whenever the
  loop of \<^verbatim>\<open>run\<close> ends, the recorder holds the lines it started with followed by
  the lines of all the attempts made, in order.
\<close>

theorem output_append_only:
  "output (R_log L c s r) = output r @ [decorate L c s]
   \<and> output (snd (R_Error L c args r)) = output r @ [decorate L c (Sprint L args)]
   \<and> output (snd (R_Fatal L c args r)) = output r @ [decorate L c (Sprint L args)]
   \<and> output (snd (R_Fatalf L c format args r)) = output r @ [decorate L c (Sprintf L format [GSlice args])]
   \<and> output (snd (R_FailNow r)) = output r
   \<and> output (r\<lparr>fail := False\<rparr>) = output r
   \<and> prefix (output r) (output (fst (snd (call L k r w))))
   \<and> prefix (output r) (output (fst (snd (exec L cs r w))))
   \<and> output (fst (snd (worker L f r n w))) = output r @ logged L (f n)
   \<and> (\<forall>res p' rr' n' w'. run_loop nx L f p r n w = Some (res, p', rr', n', w') \<longrightarrow>
         n \<le> n' \<and> output rr' = output r @ logged_from L f n (n' - n) \<and> prefix (output r) (output rr'))"
proof -
  have "\<forall>res p' rr' n' w'. run_loop nx L f p r n w = Some (res, p', rr', n', w') \<longrightarrow>
         n \<le> n' \<and> output rr' = output r @ logged_from L f n (n' - n) \<and> prefix (output r) (output rr')"
    using run_loop_output [of nx L f p r n w] by fastforce
  then show ?thesis
    by (simp add: R_log_def R_Error_def R_Fatal_def R_Fatalf_def R_FailNow_def call_eq exec_eq worker_eq)
qed

text \<open>
  A run that starts from a recorder holding one line and makes two failing attempts:
  the old line is still first, and the report is made from all three lines.
\<close>

theorem output_append_only_witness:
  "run_loop Counter_NextOr gofmt always_x \<lparr>Count = 2, Counter_Wait = 0, count = 0\<rparr>
      \<lparr>fail = False, output = [''old'']\<rparr> 0 \<lparr>now = 0, trace = []\<rparr>
    = Some (Goexit, \<lparr>Count = 2, Counter_Wait = 0, count = 2\<rparr>,
        \<lparr>fail = False, output = [''old'', ''???:1: x'', ''???:1: x'']\<rparr>, 2,
        \<lparr>now = 0, trace = [Invoked 0, Slept 0, Invoked 1,
           TLog (''old'' @ [CHR 0x0A] @ ''???:1: x'' @ [CHR 0x0A]), TFailNow]\<rparr>)
   \<and> prefix [''old''] [''old'', ''???:1: x'', ''???:1: x'']
   \<and> logged_from gofmt always_x 0 2 = [''???:1: x'', ''???:1: x'']"
proof -
  have r: "run_loop Counter_NextOr gofmt always_x \<lparr>Count = 2, Counter_Wait = 0, count = 0\<rparr>
      \<lparr>fail = False, output = [''old'']\<rparr> 0 \<lparr>now = 0, trace = []\<rparr>
    = Some (Goexit, \<lparr>Count = 2, Counter_Wait = 0, count = 2\<rparr>,
        \<lparr>fail = False, output = [''old'', ''???:1: x'', ''???:1: x'']\<rparr>, 2,
        \<lparr>now = 0, trace = [Invoked 0, Slept 0, Invoked 1,
           TLog (''old'' @ [CHR 0x0A] @ ''???:1: x'' @ [CHR 0x0A]), TFailNow]\<rparr>)"
    by code_simp
  from output_append_only [of gofmt None "[]" "\<lparr>fail = False, output = [''old'']\<rparr>" "[]" "[]"
      FailNow "\<lparr>now = 0, trace = []\<rparr>" "[]" always_x 0 Counter_NextOr
      "\<lparr>Count = 2, Counter_Wait = 0, count = 0\<rparr>"] r
  show ?thesis by simp
qed

subsection \<open>The report on exhaustion\<close>

lemma Counter_exhausted_report:
  assumes "0 \<le> n"
    and "\<forall>i<nat n. fails (f i)"
  shows "\<exists>r' rr' w'.
          RunWith Counter_NextOr L f \<lparr>Count = n, Counter_Wait = d, count = 0\<rparr> w
            = Some (Goexit, r', rr', nat n, w')
          \<and> output rr' = logged_from L f 0 (nat n)
          \<and> host_events w' = host_events w
               @ (if dedup (output rr') = [] then [] else [TLog (dedup (output rr'))]) @ [TFailNow]"
proof -
  let ?r = "\<lparr>Count = n, Counter_Wait = d, count = 0\<rparr>"
  let ?rr = "\<lparr>fail = False, output = []\<rparr>"
  have m: "nat n = nat (Count ?r - count ?r)" by simp
  have le: "count ?r \<le> Count ?r" using assms(1) by simp
  have a: "\<forall>i<nat n. fails (f (0 + i))" using assms(2) by simp
  from run_loop_Counter_all_fail [OF m le a, of L ?rr w] obtain rr' w' where
    res: "run_loop Counter_NextOr L f ?r ?rr 0 w = Some (Goexit, ?r\<lparr>count := Count ?r\<rparr>, rr', 0 + nat n, w')"
    and out: "output rr' = output ?rr @ logged_from L f 0 (nat n)"
    and tr: "trace w' = trace w @ rounds (Counter_Wait ?r) (count ?r) 0 (nat n) @ report (output rr')"
    by blast
  have h: "filter is_host (rounds d c k m) = []" for c k m
    by (induction m arbitrary: c k) simp_all
  have hr: "filter is_host (report a) = report a" for a
    by (simp add: report_def)
  have "host_events w' = host_events w @ report (output rr')"
    using tr by (simp add: host_events_def h hr)
  then have "host_events w' = host_events w
      @ (if dedup (output rr') = [] then [] else [TLog (dedup (output rr'))]) @ [TFailNow]"
    by (simp add: report_def dedup_empty_iff)
  moreover have "RunWith Counter_NextOr L f ?r w = Some (Goexit, ?r\<lparr>count := Count ?r\<rparr>, rr', nat n, w')"
    using res by (simp add: RunWith_def run_def)
  moreover have "output rr' = logged_from L f 0 (nat n)" using out by simp
  ultimately show ?thesis by blast
qed

text \<open>
  C7. The closure \<^verbatim>\<open>fail\<close> that \<^verbatim>\<open>run\<close> hands to the policy deduplicates the lines of
  the recorder, passes the block to \<^verbatim>\<open>t.Log\<close> once if the block is not empty and not
  at all if it is, then calls \<^verbatim>\<open>t.FailNow\<close>, and does not return. When a \<^verbatim>\<open>Counter\<close>
  is exhausted during \<^verbatim>\<open>RunWith\<close>, the recorder holds the lines of all the attempts,
  and what the host sees is that one block, if any, followed by \<^verbatim>\<open>FailNow\<close>.
\<close>

theorem exhausted_report:
  "run_fail rr w =
     (Goexit, w\<lparr>trace := trace w
        @ (if dedup (output rr) = [] then [] else [TLog (dedup (output rr))]) @ [TFailNow]\<rparr>)
   \<and> (dedup (output rr) = [] \<longleftrightarrow> output rr = [])
   \<and> (0 \<le> n \<and> (\<forall>i<nat n. fails (f i)) \<longrightarrow>
        (\<exists>r' rr' w'.
          RunWith Counter_NextOr L f \<lparr>Count = n, Counter_Wait = d, count = 0\<rparr> w
            = Some (Goexit, r', rr', nat n, w')
          \<and> output rr' = logged_from L f 0 (nat n)
          \<and> host_events w' = host_events w
               @ (if dedup (output rr') = [] then [] else [TLog (dedup (output rr'))]) @ [TFailNow]))"
  using Counter_exhausted_report [of n f L d w]
  by (simp add: run_fail_eq report_def dedup_empty_iff)

text \<open>
  Lines \<^verbatim>\<open>a, b, a\<close> give one block \<^verbatim>\<open>a\nb\n\<close> and \<^verbatim>\<open>FailNow\<close>; no lines give
  \<^verbatim>\<open>FailNow\<close> alone; two failing attempts that log the same line give that line once.
\<close>

theorem exhausted_report_witness:
  "(0::int) \<le> 2 \<and> fails (always_x 0) \<and> fails (always_x 1)
   \<and> run_fail \<lparr>fail = False, output = [''a'', ''b'', ''a'']\<rparr> \<lparr>now = 0, trace = []\<rparr>
       = (Goexit, \<lparr>now = 0, trace = [TLog (''a'' @ [CHR 0x0A] @ ''b'' @ [CHR 0x0A]), TFailNow]\<rparr>)
   \<and> run_fail \<lparr>fail = False, output = []\<rparr> \<lparr>now = 0, trace = []\<rparr>
       = (Goexit, \<lparr>now = 0, trace = [TFailNow]\<rparr>)
   \<and> RunWith Counter_NextOr gofmt always_x \<lparr>Count = 2, Counter_Wait = 0, count = 0\<rparr>
         \<lparr>now = 0, trace = []\<rparr>
       = Some (Goexit, \<lparr>Count = 2, Counter_Wait = 0, count = 2\<rparr>,
           \<lparr>fail = False, output = [''???:1: x'', ''???:1: x'']\<rparr>, 2,
           \<lparr>now = 0, trace = [Invoked 0, Slept 0, Invoked 1,
              TLog (''???:1: x'' @ [CHR 0x0A]), TFailNow]\<rparr>)"
proof -
  have a: "\<forall>i<nat 2. fails (always_x i)" by (simp add: always_x_def fails_def)
  have 1: "run_fail \<lparr>fail = False, output = [''a'', ''b'', ''a'']\<rparr> \<lparr>now = 0, trace = []\<rparr>
       = (Goexit, \<lparr>now = 0, trace = [TLog (''a'' @ [CHR 0x0A] @ ''b'' @ [CHR 0x0A]), TFailNow]\<rparr>)"
    using exhausted_report [of "\<lparr>fail = False, output = [''a'', ''b'', ''a'']\<rparr>"
        "\<lparr>now = 0, trace = []\<rparr>" 2 always_x gofmt 0]
    by (simp add: dedup_def)
  have 2: "run_fail \<lparr>fail = False, output = []\<rparr> \<lparr>now = 0, trace = []\<rparr>
       = (Goexit, \<lparr>now = 0, trace = [TFailNow]\<rparr>)"
    by code_simp
  have 3: "RunWith Counter_NextOr gofmt always_x \<lparr>Count = 2, Counter_Wait = 0, count = 0\<rparr>
         \<lparr>now = 0, trace = []\<rparr>
       = Some (Goexit, \<lparr>Count = 2, Counter_Wait = 0, count = 2\<rparr>,
           \<lparr>fail = False, output = [''???:1: x'', ''???:1: x'']\<rparr>, 2,
           \<lparr>now = 0, trace = [Invoked 0, Slept 0, Invoked 1,
              TLog (''???:1: x'' @ [CHR 0x0A]), TFailNow]\<rparr>)"
    by code_simp
  show ?thesis using a 1 2 3 by (simp add: always_x_def fails_def)
qed

subsection \<open>An abort stays inside its attempt\<close>




subsection \<open>Fatalf, and the default policy of Run\<close>

text \<open>
  C10. For every format and every list of arguments, the line that \<^verbatim>\<open>Fatalf\<close> records
  before it ends the goroutine is the decorated result of \<^verbatim>\<open>Sprintf\<close> on the format
  and one operand, the slice of all the arguments, whatever \<^verbatim>\<open>Sprintf\<close> is. With
  the behaviour of package \<^verbatim>\<open>fmt\<close>, \<^verbatim>\<open>Fatalf("%d", 1)\<close> records the message \<^verbatim>\<open>[1]\<close>,
  where the arguments spread over the verbs would have given \<^verbatim>\<open>1\<close>.
\<close>

theorem Fatalf_one_operand:
  "R_Fatalf L c format args r =
     (Goexit, r\<lparr>output := output r @ [decorate L c (Sprintf L format [GSlice args])],
                 fail := True\<rparr>)
   \<and> Sprintf gofmt ''%d'' [GSlice [GInt 1]] = ''[1]''
   \<and> Sprintf gofmt ''%d'' [GInt 1] = ''1''
   \<and> R_Fatalf gofmt None ''%d'' [GInt 1] \<lparr>fail = False, output = []\<rparr>
       = (Goexit, \<lparr>fail = True, output = [''???:1: [1]'']\<rparr>)"
proof -
  have 1: "Sprintf gofmt ''%d'' [GSlice [GInt 1]] = ''[1]''"
    by (simp add: gofmt_def Itoa_def digit_char_def extra_def)
  have 2: "Sprintf gofmt ''%d'' [GInt 1] = ''1''"
    by (simp add: gofmt_def Itoa_def digit_char_def extra_def)
  have 3: "Sprintf gofmt ''%s:%d: %s'' [GStr ''???'', GInt 1, GStr ''[1]''] = ''???:1: [1]''"
    by (simp add: gofmt_def Itoa_def digit_char_def extra_def)
  show ?thesis
    using 1 2 3 by (simp add: R_Fatalf_def R_FailNow_def R_log_def decorate_def)
qed

text \<open>
  With two arguments and two verbs: the first verb takes the whole slice and the
  second finds no operand, where spreading would have given \<^verbatim>\<open>n=7\<close>.
\<close>

theorem Fatalf_one_operand_witness:
  "R_Fatalf gofmt (Some (''/src/agent/agent_test.go'', 42)) ''%s=%d'' [GStr ''n'', GInt 7]
       \<lparr>fail = False, output = [''earlier'']\<rparr>
     = (Goexit, \<lparr>fail = True,
          output = [''earlier'', ''agent_test.go:42: [n %!s(int=7)]=%!d(MISSING)'']\<rparr>)
   \<and> Sprintf gofmt ''%s=%d'' [GStr ''n'', GInt 7] = ''n=7''"
proof -
  have 1: "Sprintf gofmt ''%s=%d'' [GSlice [GStr ''n'', GInt 7]] = ''[n %!s(int=7)]=%!d(MISSING)''"
    by code_simp
  have 2: "decorate gofmt (Some (''/src/agent/agent_test.go'', 42)) ''[n %!s(int=7)]=%!d(MISSING)''
      = ''agent_test.go:42: [n %!s(int=7)]=%!d(MISSING)''"
    by code_simp
  have 3: "Sprintf gofmt ''%s=%d'' [GStr ''n'', GInt 7] = ''n=7''"
    by code_simp
  from Fatalf_one_operand [of gofmt "Some (''/src/agent/agent_test.go'', 42)" "''%s=%d''"
      "[GStr ''n'', GInt 7]" "\<lparr>fail = False, output = [''earlier'']\<rparr>"] 1 2 3
  show ?thesis by simp
qed

text \<open>
  C6. \<^verbatim>\<open>Run\<close> is \<^verbatim>\<open>RunWith\<close> under the policy \<^verbatim>\<open>OneSec()\<close>: a fresh \<^verbatim>\<open>Timer\<close> with a
  timeout of one second and a wait of 25 milliseconds, in nanoseconds.
\<close>

theorem Run_is_RunWith_OneSec:
  "Run L f w = RunWith Timer_NextOr L f \<lparr>Timeout = 1000000000, Timer_Wait = 25000000, stop = 0\<rparr> w
   \<and> OneSec = \<lparr>Timeout = 1000000000, Timer_Wait = 25000000, stop = 0\<rparr>
   \<and> Run L f w = RunWith Timer_NextOr L f OneSec w"
  by (simp add: Run_def RunWith_def OneSec_def Second_def Millisecond_def)

text \<open>
  Both sides on the callback that succeeds at its second invocation.
\<close>

theorem Run_is_RunWith_OneSec_witness:
  "Run gofmt retry_me \<lparr>now = 63900000000000000000, trace = []\<rparr>
     = Some (Return (), \<lparr>Timeout = 1000000000, Timer_Wait = 25000000, stop = 63900000001000000000\<rparr>,
         \<lparr>fail = False, output = [''???:1: retry me'']\<rparr>, 2,
         \<lparr>now = 63900000000025000000, trace = [Invoked 0, Slept 25000000, Invoked 1]\<rparr>)
   \<and> RunWith Timer_NextOr gofmt retry_me \<lparr>Timeout = 1000000000, Timer_Wait = 25000000, stop = 0\<rparr>
       \<lparr>now = 63900000000000000000, trace = []\<rparr>
     = Some (Return (), \<lparr>Timeout = 1000000000, Timer_Wait = 25000000, stop = 63900000001000000000\<rparr>,
         \<lparr>fail = False, output = [''???:1: retry me'']\<rparr>, 2,
         \<lparr>now = 63900000000025000000, trace = [Invoked 0, Slept 25000000, Invoked 1]\<rparr>)"
proof -
  have "RunWith Timer_NextOr gofmt retry_me \<lparr>Timeout = 1000000000, Timer_Wait = 25000000, stop = 0\<rparr>
       \<lparr>now = 63900000000000000000, trace = []\<rparr>
     = Some (Return (), \<lparr>Timeout = 1000000000, Timer_Wait = 25000000, stop = 63900000001000000000\<rparr>,
         \<lparr>fail = False, output = [''???:1: retry me'']\<rparr>, 2,
         \<lparr>now = 63900000000025000000, trace = [Invoked 0, Slept 25000000, Invoked 1]\<rparr>)"
    by code_simp
  with Run_is_RunWith_OneSec [of gofmt retry_me "\<lparr>now = 63900000000000000000, trace = []\<rparr>"]
  show ?thesis by simp
qed

subsection \<open>Calls of NextOr\<close>

text \<open>
  C4. A fresh \<^verbatim>\<open>Timer\<close> (\<^verbatim>\<open>stop\<close> unset): its first call of \<^verbatim>\<open>NextOr\<close> sets \<^verbatim>\<open>stop\<close> to
  the current time plus \<^verbatim>\<open>Timeout\<close> and returns true, without calling \<^verbatim>\<open>fail\<close>, without
  sleeping and without looking at the deadline. Every later call, in whatever world,
  finds the policy in that state and leaves it so: when the current time is strictly
  after the deadline it calls \<^verbatim>\<open>fail\<close> and then returns false, and otherwise it sleeps
  for \<^verbatim>\<open>Wait\<close> and returns true. The two hypotheses on the numbers say that
  \<^verbatim>\<open>Timeout\<close> is a \<^verbatim>\<open>time.Duration\<close> (at least \<open>- 2^63\<close> nanoseconds) and that the
  clock reads a time more than \<open>2^63\<close> nanoseconds (292 years) after the zero
  time, as \<^verbatim>\<open>time.Now()\<close> does; the deadline is then not the zero time, by which the
  source recognises the first call.
\<close>

theorem Timer_first_and_later_calls:
  assumes "stop r = 0"
    and "- (2 ^ 63) \<le> Timeout r"
    and "2 ^ 63 < now w0"
  shows "Timer_NextOr fl r w0 = (Return True, r\<lparr>stop := now w0 + Timeout r\<rparr>, w0)
     \<and> Timer_NextOr fl' (r\<lparr>stop := now w0 + Timeout r\<rparr>) w =
         (if now w > now w0 + Timeout r then
            (case fl' w of
               (Return x, w') \<Rightarrow> (Return False, r\<lparr>stop := now w0 + Timeout r\<rparr>, w')
             | (Goexit, w') \<Rightarrow> (Goexit, r\<lparr>stop := now w0 + Timeout r\<rparr>, w'))
          else (Return True, r\<lparr>stop := now w0 + Timeout r\<rparr>, Sleep (Timer_Wait r) w))"
proof -
  have "now w0 + Timeout r \<noteq> 0" using assms(2,3) by linarith
  then show ?thesis using assms(1) by (simp add: Timer_NextOr_def)
qed

text \<open>
  \<^verbatim>\<open>OneSec()\<close> at a clock reading of about 2025 years: the first call, a later call
  at the deadline (not yet after it), and a call one nanosecond after the deadline.
\<close>

theorem Timer_first_and_later_calls_witness:
  "stop OneSec = 0 \<and> - (2 ^ 63) \<le> Timeout OneSec
   \<and> (2::int) ^ 63 < now \<lparr>now = 63900000000000000000, trace = []\<rparr>
   \<and> Timer_NextOr gave_up OneSec \<lparr>now = 63900000000000000000, trace = []\<rparr>
     = (Return True, \<lparr>Timeout = 1000000000, Timer_Wait = 25000000, stop = 63900000001000000000\<rparr>,
        \<lparr>now = 63900000000000000000, trace = []\<rparr>)
   \<and> Timer_NextOr gave_up \<lparr>Timeout = 1000000000, Timer_Wait = 25000000, stop = 63900000001000000000\<rparr>
        \<lparr>now = 63900000001000000000, trace = []\<rparr>
     = (Return True, \<lparr>Timeout = 1000000000, Timer_Wait = 25000000, stop = 63900000001000000000\<rparr>,
        \<lparr>now = 63900000001025000000, trace = [Slept 25000000]\<rparr>)
   \<and> Timer_NextOr gave_up \<lparr>Timeout = 1000000000, Timer_Wait = 25000000, stop = 63900000001000000000\<rparr>
        \<lparr>now = 63900000001000000001, trace = []\<rparr>
     = (Return False, \<lparr>Timeout = 1000000000, Timer_Wait = 25000000, stop = 63900000001000000000\<rparr>,
        \<lparr>now = 63900000001000000001, trace = [TLog ''gave up'']\<rparr>)"
proof -
  let ?w0 = "\<lparr>now = 63900000000000000000, trace = []\<rparr>"
  have a: "stop OneSec = 0" by (simp add: OneSec_def)
  have b: "- (2 ^ 63) \<le> Timeout OneSec" by (simp add: OneSec_def Second_def)
  have c: "(2::int) ^ 63 < now ?w0" by simp
  from Timer_first_and_later_calls [OF a b c, of gave_up gave_up "\<lparr>now = 63900000001000000000, trace = []\<rparr>"]
    Timer_first_and_later_calls [OF a b c, of gave_up gave_up "\<lparr>now = 63900000001000000001, trace = []\<rparr>"]
    a b c
  show ?thesis
    by (simp add: OneSec_def Second_def Millisecond_def gave_up_def t_Log_def Sleep_def)
qed

lemma calls_Counter:
  assumes "\<And>w. fst (fl w) = Return ()"
    and "count r \<le> Count r"
  shows "calls Counter_NextOr fl k r w =
     replicate (min k (nat (Count r - count r))) (Return True)
       @ replicate (k - nat (Count r - count r)) (Return False)"
  using assms(2)
proof (induction k arbitrary: r w)
  case 0
  show ?case by simp
next
  case (Suc k)
  show ?case
  proof (cases "count r = Count r")
    case True
    obtain w' where fl: "fl w = (Return (), w')"
      using assms(1) [of w] by (cases "fl w") auto
    have "Counter_NextOr fl r w = (Return False, r, w')"
      using True fl by (simp add: Counter_NextOr_def)
    then show ?thesis
      using True Suc.IH [of r w'] by (simp add: replicate_app_Cons_same)
  next
    case False
    let ?r1 = "r\<lparr>count := count r + 1\<rparr>"
    let ?w1 = "if count r > 0 then Sleep (Counter_Wait r) w else w"
    have g: "Counter_NextOr fl r w = (Return True, ?r1, ?w1)"
      using False by (simp add: Counter_NextOr_def Let_def)
    have le: "count ?r1 \<le> Count ?r1" using False Suc.prems by simp
    have n: "nat (Count r - count r) = Suc (nat (Count ?r1 - count ?r1))"
      using False Suc.prems by simp
    show ?thesis
      using Suc.IH [OF le, of ?w1] g unfolding n by simp
  qed
qed


text \<open>
  C5, as stated, asks that \<^verbatim>\<open>NextOr\<close> return false exactly once in any sequence of
  calls. A \<^verbatim>\<open>Counter\<close> with \<^verbatim>\<open>Count = 1\<close> called three times, with a callback that
  returns, returns true, false and false.
\<close>

theorem NextOr_false_twice_counterexample:
  "calls Counter_NextOr gave_up 3 \<lparr>Count = 1, Counter_Wait = 0, count = 0\<rparr> \<lparr>now = 0, trace = []\<rparr>
     = [Return True, Return False, Return False]
   \<and> length (filter (\<lambda>b. b = Return False)
        (calls Counter_NextOr gave_up 3 \<lparr>Count = 1, Counter_Wait = 0, count = 0\<rparr>
           \<lparr>now = 0, trace = []\<rparr>)) \<noteq> 1"
  by (simp add: Counter_NextOr_def gave_up_def numeral_3_eq_3)

text \<open>
  C5, amended. \<^verbatim>\<open>NextOr\<close> returns false on every call made while the policy is
  exhausted, not once only: a \<^verbatim>\<open>Counter\<close> is exhausted when \<^verbatim>\<open>count = Count\<close>, a
  \<^verbatim>\<open>Timer\<close> when its deadline is set and the current time is after it. A call in
  that state calls \<^verbatim>\<open>fail\<close> once and, if \<^verbatim>\<open>fail\<close> returns, returns false and leaves
  the policy as it was; a call in any other state returns true and does not call
  \<^verbatim>\<open>fail\<close>. So every false has been preceded, within the same call, by the call of
  \<^verbatim>\<open>fail\<close>. With a callback that always returns, a fresh \<^verbatim>\<open>Counter\<close> with
  \<^verbatim>\<open>Count >= 0\<close> returns true on its first \<^verbatim>\<open>Count\<close> calls and false on every call
  after them.
\<close>

theorem NextOr_false_when_exhausted:
  "Counter_NextOr fl c w =
     (if count c = Count c then
        (case fl w of
           (Return x, w') \<Rightarrow> (Return False, c, w')
         | (Goexit, w') \<Rightarrow> (Goexit, c, w'))
      else (Return True, c\<lparr>count := count c + 1\<rparr>,
            if count c > 0 then Sleep (Counter_Wait c) w else w))
   \<and> Timer_NextOr fl t w =
     (if stop t \<noteq> 0 \<and> now w > stop t then
        (case fl w of
           (Return x, w') \<Rightarrow> (Return False, t, w')
         | (Goexit, w') \<Rightarrow> (Goexit, t, w'))
      else (Return True, if stop t = 0 then t\<lparr>stop := now w + Timeout t\<rparr> else t,
            if stop t = 0 then w else Sleep (Timer_Wait t) w))
   \<and> ((\<forall>w. fst (fl w) = Return ()) \<and> 0 \<le> Count r \<and> count r = 0 \<longrightarrow>
        calls Counter_NextOr fl k r w =
          replicate (min k (nat (Count r))) (Return True) @ replicate (k - nat (Count r)) (Return False))"
proof -
  have "calls Counter_NextOr fl k r w =
       replicate (min k (nat (Count r))) (Return True) @ replicate (k - nat (Count r)) (Return False)"
    if "\<forall>w. fst (fl w) = Return ()" "0 \<le> Count r" "count r = 0"
    using calls_Counter [of fl r k w] that by simp
  then show ?thesis
    by (simp add: Counter_NextOr_def Timer_NextOr_def Let_def)
qed

text \<open>
  \<^verbatim>\<open>ThreeTimes()\<close> called five times, and one call of each policy when exhausted.
\<close>

theorem NextOr_false_when_exhausted_witness:
  "fst (gave_up \<lparr>now = 0, trace = []\<rparr>) = Return ()
   \<and> (0::int) \<le> Count ThreeTimes \<and> count ThreeTimes = 0
   \<and> calls Counter_NextOr gave_up 5 ThreeTimes \<lparr>now = 0, trace = []\<rparr>
       = [Return True, Return True, Return True, Return False, Return False]
   \<and> Counter_NextOr gave_up \<lparr>Count = 3, Counter_Wait = 25000000, count = 3\<rparr> \<lparr>now = 7, trace = []\<rparr>
       = (Return False, \<lparr>Count = 3, Counter_Wait = 25000000, count = 3\<rparr>,
          \<lparr>now = 7, trace = [TLog ''gave up'']\<rparr>)
   \<and> Timer_NextOr gave_up \<lparr>Timeout = 10, Timer_Wait = 1, stop = 17\<rparr> \<lparr>now = 18, trace = []\<rparr>
       = (Return False, \<lparr>Timeout = 10, Timer_Wait = 1, stop = 17\<rparr>,
          \<lparr>now = 18, trace = [TLog ''gave up'']\<rparr>)"
proof -
  have a: "\<And>w. fst (gave_up w) = Return ()" by (simp add: gave_up_def)
  have b: "0 \<le> Count ThreeTimes" by (simp add: ThreeTimes_def)
  have c: "count ThreeTimes = 0" by (simp add: ThreeTimes_def)
  from NextOr_false_when_exhausted [of gave_up "\<lparr>Count = 3, Counter_Wait = 25000000, count = 3\<rparr>"
      "\<lparr>now = 7, trace = []\<rparr>" "\<lparr>Timeout = 10, Timer_Wait = 1, stop = 17\<rparr>" ThreeTimes 5]
    NextOr_false_when_exhausted [of gave_up "\<lparr>Count = 3, Counter_Wait = 25000000, count = 3\<rparr>"
      "\<lparr>now = 18, trace = []\<rparr>" "\<lparr>Timeout = 10, Timer_Wait = 1, stop = 17\<rparr>" ThreeTimes 5]
    NextOr_false_when_exhausted [of gave_up "\<lparr>Count = 3, Counter_Wait = 25000000, count = 3\<rparr>"
      "\<lparr>now = 0, trace = []\<rparr>" "\<lparr>Timeout = 10, Timer_Wait = 1, stop = 17\<rparr>" ThreeTimes 5]
    a b c
  show ?thesis
    by (simp add: ThreeTimes_def gave_up_def t_Log_def numeral_eq_Suc)
qed

subsection \<open>The policies of the package grant their requests quietly\<close>

text \<open>
  The hypothesis of \<open>RunWith_first_success\<close> on the policy holds of the policies of
  the package: a \<^verbatim>\<open>Counter\<close> grants as many requests as it has attempts left, and a
  fresh \<^verbatim>\<open>Timer\<close> grants its first request whatever the time; when they grant, they
  sleep at most, and neither report to the host nor invoke the callback. For a
  \<^verbatim>\<open>Counter\<close> the first successful attempt therefore ends the run whenever \<^verbatim>\<open>Count\<close>
  is at least its number.
\<close>

lemma host_events_Sleep [simp]: "host_events (Sleep d w) = host_events w"
  by (simp add: host_events_def Sleep_def)

lemma invoked_Sleep [simp]: "invoked (Sleep d w) = invoked w"
  by (simp add: invoked_def Sleep_def)

lemma grants_Counter:
  assumes "int k \<le> Count r - count r"
  shows "grants Counter_NextOr L f k r rr n w"
  using assms
proof (induction k arbitrary: r rr n w)
  case 0
  show ?case by simp
next
  case (Suc k)
  then have ne: "count r \<noteq> Count r" by auto
  have le: "int k \<le> Count (r\<lparr>count := count r + 1\<rparr>) - count (r\<lparr>count := count r + 1\<rparr>)"
    using Suc.prems by simp
  show ?case
    using Suc.IH [OF le] by (simp add: Counter_NextOr_granted [OF ne] worker_eq)
qed

lemma grants_Timer_first:
  assumes "stop r = 0"
  shows "grants Timer_NextOr L f (Suc 0) r rr n w"
  using assms by (simp add: Timer_NextOr_def worker_eq)

lemma RunWith_Counter_first_success:
  assumes "0 < k"
    and "int k \<le> c"
    and "\<forall>i<k - 1. fails (f i)"
    and "\<not> fails (f (k - 1))"
  shows "\<exists>r' w'. RunWith Counter_NextOr L f \<lparr>Count = c, Counter_Wait = d, count = 0\<rparr> w
            = Some (Return (), r', \<lparr>fail = False, output = logged_from L f 0 k\<rparr>, k, w')
           \<and> invoked w' = invoked w @ map Invoked [0..<k]
           \<and> host_events w' = host_events w"
proof -
  from assms(1) obtain j where k: "k = Suc j" by (cases k) auto
  let ?r = "\<lparr>Count = c, Counter_Wait = d, count = 0\<rparr>"
  let ?rr = "\<lparr>fail = False, output = []\<rparr>"
  have g: "grants Counter_NextOr L f (Suc j) ?r ?rr 0 w"
    using assms(2) unfolding k by (intro grants_Counter) simp
  have a: "\<forall>i<j. fails (f (0 + i))" using assms(3) unfolding k by simp
  have b: "\<not> fails (f (0 + j))" using assms(4) unfolding k by simp
  from run_loop_first_success [OF g _ a b] obtain r' rr' w' where
    res: "run_loop Counter_NextOr L f ?r ?rr 0 w = Some (Return (), r', rr', 0 + Suc j, w')"
    and h: "host_events w' = host_events w"
    and i: "invoked w' = invoked w @ map Invoked [0..<0 + Suc j]"
    and out: "output rr' = output ?rr @ logged_from L f 0 (Suc j)"
    and nf: "\<not> fail rr'"
    by auto
  have "rr' = \<lparr>fail = False, output = logged_from L f 0 (Suc j)\<rparr>"
    using out nf by (cases rr') simp
  with res h i show ?thesis
    unfolding RunWith_def run_def k by auto
qed

end
